theory Spec2Isabelle
  imports Main "HOL-Library.Word"
begin

section \<open>Pyfuncs: \<open>range\<close> and \<open>zip\<close> (src/pyfuncs.hh)\<close>

text \<open>
  \<open>std::size_t\<close> is modelled as a 64-bit machine word (an LP64 platform): \<open>+\<close> wraps
  around modulo \<open>2 ^ 64\<close>, \<open>unat\<close> reads its value.
\<close>

type_synonym size_t = "64 word"

text \<open>
  The ways an operation of the header can end without a value:
  \<^item> \<open>AssertionFailed\<close>: an \<open>assert\<close> of \<open><assert.h>\<close> failed and called \<open>abort()\<close>
    (the header is read as written, with assertions enabled, i.e. without \<open>NDEBUG\<close>);
    the process ends, no exception is thrown;
  \<^item> \<open>UndefinedBehaviour\<close>: a read through a dangling reference or an index beyond the
    size of a container;
  \<^item> \<open>IllFormed\<close>: a \<open>static_assert\<close> rejects the instantiation (no program exists).
\<close>

datatype error = AssertionFailed | UndefinedBehaviour | IllFormed

subsection \<open>\<open>class range\<close>\<close>

text \<open>\<open>range::Iterator\<close>: the private members \<open>i_\<close> and \<open>max_\<close>.\<close>

record range_Iterator =
  range_Iterator_i :: size_t
  range_Iterator_max :: size_t

text \<open>\<open>Iterator(std::size_t max) : i_(0), max_(max)\<close>\<close>

definition range_Iterator1 :: "size_t \<Rightarrow> range_Iterator" where
  "range_Iterator1 max' = \<lparr>range_Iterator_i = 0, range_Iterator_max = max'\<rparr>"

text \<open>\<open>Iterator(std::size_t i, std::size_t max) : i_(i), max_(max)\<close>\<close>

definition range_Iterator2 :: "size_t \<Rightarrow> size_t \<Rightarrow> range_Iterator" where
  "range_Iterator2 i max' = \<lparr>range_Iterator_i = i, range_Iterator_max = max'\<rparr>"

text \<open>\<open>bool operator!=(const Iterator& iter) { return i_ != iter.i_; }\<close>\<close>

definition range_Iterator_neq :: "range_Iterator \<Rightarrow> range_Iterator \<Rightarrow> bool" where
  "range_Iterator_neq this iter \<longleftrightarrow> range_Iterator_i this \<noteq> range_Iterator_i iter"

text \<open>\<open>std::size_t operator*() { return i_; }\<close>\<close>

definition range_Iterator_deref :: "range_Iterator \<Rightarrow> size_t" where
  "range_Iterator_deref this = range_Iterator_i this"

text \<open>\<open>Iterator& operator++() { i_++; return *this; }\<close>: the updated iterator.\<close>

definition range_Iterator_inc :: "range_Iterator \<Rightarrow> range_Iterator" where
  "range_Iterator_inc this = this\<lparr>range_Iterator_i := range_Iterator_i this + 1\<rparr>"

text \<open>\<open>class range\<close>: the private members \<open>i_\<close> and \<open>max_\<close>.\<close>

record range =
  range_i :: size_t
  range_max :: size_t

text \<open>
  \<open>range(const std::size_t i, const std::size_t max) : i_(i), max_(max) { assert(i <= max); }\<close>
\<close>

definition range2 :: "size_t \<Rightarrow> size_t \<Rightarrow> error + range" where
  "range2 i max' =
     (if i \<le> max' then Inr \<lparr>range_i = i, range_max = max'\<rparr> else Inl AssertionFailed)"

text \<open>\<open>range(const std::size_t max) : range(0, max) {}\<close>\<close>

definition range1 :: "size_t \<Rightarrow> error + range" where
  "range1 max' = range2 0 max'"

text \<open>
  \<open>begin()\<close> and \<open>end()\<close> are non-const member functions: the model returns the iterator
  together with the object as the call leaves it.
\<close>

definition range_begin :: "range \<Rightarrow> range_Iterator \<times> range" where
  "range_begin this = (range_Iterator2 (range_i this) (range_max this), this)"

definition range_end :: "range \<Rightarrow> range_Iterator \<times> range" where
  "range_end this = (range_Iterator2 (range_max this) (range_max this), this)"

text \<open>
  The range-based \<open>for\<close> statement named in the header's comment,
  \<open>for (const auto i : r) out.push_back(i);\<close>, which the language defines as
  \<open>auto b = r.begin(); auto e = r.end(); for (; b != e; ++b) { const auto i = *b; ... }\<close>.
  \<open>range_loop\<close> is the inner loop, \<open>out\<close> the values seen so far.
\<close>

function range_loop :: "range_Iterator \<Rightarrow> range_Iterator \<Rightarrow> size_t list \<Rightarrow> size_t list" where
  "range_loop b e out =
     (if range_Iterator_neq b e
      then range_loop (range_Iterator_inc b) e (out @ [range_Iterator_deref b])
      else out)"
  by pat_completeness auto
termination
proof (relation "measure (\<lambda>(b, e, out). unat (range_Iterator_i e - range_Iterator_i b))")
  show "wf (measure (\<lambda>(b, e, out). unat (range_Iterator_i e - range_Iterator_i b)))"
    by simp
next
  fix b e :: range_Iterator and out :: "size_t list"
  assume "range_Iterator_neq b e"
  then have "range_Iterator_i e - range_Iterator_i b \<noteq> 0"
    by (simp add: range_Iterator_neq_def)
  then have "unat (range_Iterator_i e - range_Iterator_i b - 1)
               < unat (range_Iterator_i e - range_Iterator_i b)"
    by (metis unat_minus_one unat_gt_0 diff_less zero_less_one)
  also have "range_Iterator_i e - range_Iterator_i b - 1
               = range_Iterator_i e - (range_Iterator_i b + 1)"
    by simp
  finally have "unat (range_Iterator_i e - (range_Iterator_i b + 1))
               < unat (range_Iterator_i e - range_Iterator_i b)" .
  then show "((range_Iterator_inc b, e, out @ [range_Iterator_deref b]), (b, e, out))
          \<in> measure (\<lambda>(b, e, out). unat (range_Iterator_i e - range_Iterator_i b))"
    by (simp add: range_Iterator_inc_def)
qed

declare range_loop.simps [simp del]

definition range_for :: "range \<Rightarrow> size_t list \<times> range" where
  "range_for r =
     (let (b, r1) = range_begin r;
          (e, r2) = range_end r1
      in (range_loop b e [], r2))"

text \<open>The whole statement \<open>for (const auto i : range(i, max)) out.push_back(i);\<close>.\<close>

definition for_range2 :: "size_t \<Rightarrow> size_t \<Rightarrow> error + size_t list" where
  "for_range2 i max' =
     (case range2 i max' of Inl err \<Rightarrow> Inl err | Inr r \<Rightarrow> Inr (fst (range_for r)))"

subsection \<open>\<open>class zip\<close>\<close>

text \<open>
  Objects that are referred to by reference live in a store, at addresses. The containers
  of the caller hold elements of one type \<open>'a\<close> (a sum type where the \<open>Args\<close> differ);
  a \<open>std::tuple\<close> of \<open>N\<close> components is a list of length \<open>N\<close>, in declaration order.
\<close>

type_synonym addr = nat

text \<open>
  \<open>class zip\<close>: the member \<open>arrays_\<close>, a \<open>std::tuple<const Args&...>\<close> (one
  reference, i.e. address, for each container), and the member \<open>max_\<close>. \<open>arrays_\<close> is
  the first member, so its address is the address of the \<open>zip\<close> object.
\<close>

record zip =
  zip_arrays :: "addr list"
  zip_max :: size_t

record 'a store =
  containers :: "addr \<rightharpoonup> 'a list"
  zips :: "addr \<rightharpoonup> zip"

text \<open>
  What \<open>zip\<close> asks of a container: \<open>size()\<close>, a \<open>std::size_t\<close>, and \<open>operator[]\<close>,
  which is undefined beyond the size.
\<close>

definition container_size :: "'a list \<Rightarrow> size_t" where
  "container_size c = word_of_nat (length c)"

definition container_at :: "'a list \<Rightarrow> size_t \<Rightarrow> error + 'a" where
  "container_at c i = (if unat i < length c then Inr (c ! unat i) else Inl UndefinedBehaviour)"

text \<open>
  Modelled from the spec: \<open>min_size\<close> is declared in \<open>misc.hh\<close>, which is not among the
  sources. The spec: the combiner "computes \<open>limit\<close> once as the minimum of all container
  lengths", \<open>limit = min(size(c_0), \<dots>, size(c_{N-1}))\<close>, for \<open>N \<ge> 1\<close> containers. It
  gives no value for no container at all: \<open>None\<close>.
\<close>

fun min_size :: "'a list list \<Rightarrow> size_t option" where
  "min_size [] = None"
| "min_size [c] = Some (container_size c)"
| "min_size (c # cs) = map_option (min (container_size c)) (min_size cs)"

text \<open>
  \<open>zip::Iterator<N>\<close>: the template argument \<open>N\<close>, the member \<open>arrays_\<close>, a reference
  to a tuple of references (the address of that tuple), and the member \<open>i_\<close>.
\<close>

record zip_Iterator =
  zip_Iterator_N :: nat
  zip_Iterator_arrays :: addr
  zip_Iterator_i :: size_t

text \<open>\<open>Iterator(const array_t& arrays) : arrays_(arrays), i_(0)\<close>\<close>

definition zip_Iterator1 :: "nat \<Rightarrow> addr \<Rightarrow> zip_Iterator" where
  "zip_Iterator1 N arrays =
     \<lparr>zip_Iterator_N = N, zip_Iterator_arrays = arrays, zip_Iterator_i = 0\<rparr>"

text \<open>\<open>Iterator(const array_t& arrays, const std::size_t i) : arrays_(arrays), i_(i)\<close>\<close>

definition zip_Iterator2 :: "nat \<Rightarrow> addr \<Rightarrow> size_t \<Rightarrow> zip_Iterator" where
  "zip_Iterator2 N arrays i =
     \<lparr>zip_Iterator_N = N, zip_Iterator_arrays = arrays, zip_Iterator_i = i\<rparr>"

text \<open>
  \<open>bool operator!=(const Iterator& iter)
  { return i_ != iter.i_ || &arrays_ != &iter.arrays_; }\<close>:
  \<open>&arrays_\<close> is the address of the tuple the reference is bound to.
\<close>

definition zip_Iterator_neq :: "zip_Iterator \<Rightarrow> zip_Iterator \<Rightarrow> bool" where
  "zip_Iterator_neq this iter \<longleftrightarrow>
     zip_Iterator_i this \<noteq> zip_Iterator_i iter
     \<or> zip_Iterator_arrays this \<noteq> zip_Iterator_arrays iter"

text \<open>\<open>Iterator& operator++() { i_++; return *this; }\<close>: the updated iterator.\<close>

definition zip_Iterator_inc :: "zip_Iterator \<Rightarrow> zip_Iterator" where
  "zip_Iterator_inc this = this\<lparr>zip_Iterator_i := zip_Iterator_i this + 1\<rparr>"

text \<open>
  The expression \<open>std::get<M>(arrays_)[i_]\<close> of \<open>get<M>()\<close>: the tuple is read through
  the reference \<open>arrays_\<close>, its component \<open>M\<close> is a reference to a container, which is
  indexed at \<open>i_\<close>. \<open>std::get<M>\<close> is ill-formed beyond the size of the tuple.
\<close>

definition zip_Iterator_elem :: "nat \<Rightarrow> 'a store \<Rightarrow> zip_Iterator \<Rightarrow> error + 'a" where
  "zip_Iterator_elem M s this =
     (case zips s (zip_Iterator_arrays this) of
        None \<Rightarrow> Inl UndefinedBehaviour
      | Some z \<Rightarrow>
          if \<not> M < length (zip_arrays z) then Inl IllFormed
          else (case containers s (zip_arrays z ! M) of
                  None \<Rightarrow> Inl UndefinedBehaviour
                | Some c \<Rightarrow> container_at c (zip_Iterator_i this)))"

text \<open>
  \<open>template <std::size_t M> auto get()
  { static_assert(M < N);
    if constexpr(M == N - 1) return std::make_tuple(std::get<M>(arrays_)[i_]);
    else return std::tuple_cat(std::make_tuple(std::get<M>(arrays_)[i_]), get<M + 1>()); }\<close>
\<close>

function zip_Iterator_get :: "nat \<Rightarrow> 'a store \<Rightarrow> zip_Iterator \<Rightarrow> error + 'a list" where
  "zip_Iterator_get M s this =
     (if \<not> M < zip_Iterator_N this then Inl IllFormed
      else if M = zip_Iterator_N this - 1
      then (case zip_Iterator_elem M s this of
              Inl err \<Rightarrow> Inl err
            | Inr x \<Rightarrow> Inr [x])
      else (case zip_Iterator_elem M s this of
              Inl err \<Rightarrow> Inl err
            | Inr x \<Rightarrow>
                (case zip_Iterator_get (M + 1) s this of
                   Inl err \<Rightarrow> Inl err
                 | Inr t \<Rightarrow> Inr (x # t))))"
  by pat_completeness auto
termination
  by (relation "measure (\<lambda>(M, s, this). zip_Iterator_N this - M)") auto

declare zip_Iterator_get.simps [simp del]

text \<open>\<open>tuple_t operator*() { return get<0>(); }\<close>\<close>

definition zip_Iterator_deref :: "'a store \<Rightarrow> zip_Iterator \<Rightarrow> error + 'a list" where
  "zip_Iterator_deref s this = zip_Iterator_get 0 s this"

text \<open>
  \<open>zip(const Args&... args) : arrays_(args...), max_(min_size(args...)) {}\<close>: the object
  is constructed at the address \<open>this\<close>; \<open>args\<close> are the addresses of the containers, and
  \<open>min_size\<close> reads them.
\<close>

definition zip_ctor :: "addr \<Rightarrow> addr list \<Rightarrow> 'a store \<Rightarrow> error + 'a store" where
  "zip_ctor this args s =
     (case those (map (containers s) args) of
        None \<Rightarrow> Inl UndefinedBehaviour
      | Some cs \<Rightarrow>
          (case min_size cs of
             None \<Rightarrow> Inl IllFormed
           | Some m \<Rightarrow>
               Inr (s\<lparr>zips := (zips s)(this \<mapsto> \<lparr>zip_arrays = args, zip_max = m\<rparr>)\<rparr>)))"

text \<open>
  \<open>auto begin() { return Iterator<sizeof...(Args)>(arrays_, 0); }\<close> and
  \<open>auto end() { return Iterator<sizeof...(Args)>(arrays_, max_); }\<close>, called on the object
  at the address \<open>this\<close>: the iterator with the store as the call leaves it.
\<close>

definition zip_begin :: "addr \<Rightarrow> 'a store \<Rightarrow> error + zip_Iterator \<times> 'a store" where
  "zip_begin this s =
     (case zips s this of
        None \<Rightarrow> Inl UndefinedBehaviour
      | Some z \<Rightarrow> Inr (zip_Iterator2 (length (zip_arrays z)) this 0, s))"

definition zip_end :: "addr \<Rightarrow> 'a store \<Rightarrow> error + zip_Iterator \<times> 'a store" where
  "zip_end this s =
     (case zips s this of
        None \<Rightarrow> Inl UndefinedBehaviour
      | Some z \<Rightarrow> Inr (zip_Iterator2 (length (zip_arrays z)) this (zip_max z), s))"

text \<open>
  The range-based \<open>for\<close> statement of the header's comment,
  \<open>for (const auto& t : z) out.push_back(t);\<close>, that is
  \<open>auto b = z.begin(); auto e = z.end(); for (; b != e; ++b) { const auto& t = *b; ... }\<close>.
  Nothing bounds the loop for two arbitrary iterators: not returning is \<open>None\<close>.
\<close>

partial_function (option) zip_loop ::
  "'a store \<Rightarrow> zip_Iterator \<Rightarrow> zip_Iterator \<Rightarrow> 'a list list \<Rightarrow> (error + 'a list list) option"
where
  "zip_loop s b e out =
     (if zip_Iterator_neq b e
      then (case zip_Iterator_deref s b of
              Inl err \<Rightarrow> Some (Inl err)
            | Inr t \<Rightarrow> zip_loop s (zip_Iterator_inc b) e (out @ [t]))
      else Some (Inr out))"

declare zip_loop.simps [code]

definition zip_for :: "addr \<Rightarrow> 'a store \<Rightarrow> (error + 'a list list \<times> 'a store) option" where
  "zip_for z s =
     (case zip_begin z s of
        Inl err \<Rightarrow> Some (Inl err)
      | Inr (b, s1) \<Rightarrow>
          (case zip_end z s1 of
             Inl err \<Rightarrow> Some (Inl err)
           | Inr (e, s2) \<Rightarrow>
               (case zip_loop s2 b e [] of
                  None \<Rightarrow> None
                | Some (Inl err) \<Rightarrow> Some (Inl err)
                | Some (Inr out) \<Rightarrow> Some (Inr (out, s2)))))"

subsection \<open>Client programs\<close>

text \<open>
  The cursors obtained from the \<open>zip\<close> object at the address \<open>z\<close> of the store \<open>s\<close>:
  what \<open>begin()\<close> and \<open>end()\<close> return, and what \<open>operator++\<close> makes of such a cursor.
\<close>

inductive zip_cursor :: "'a store \<Rightarrow> addr \<Rightarrow> zip_Iterator \<Rightarrow> bool" for s :: "'a store" and z :: addr
where
  from_begin: "zip_begin z s = Inr (it, s') \<Longrightarrow> zip_cursor s z it"
| from_end: "zip_end z s = Inr (it, s') \<Longrightarrow> zip_cursor s z it"
| advanced: "zip_cursor s z it \<Longrightarrow> zip_cursor s z (zip_Iterator_inc it)"

code_pred zip_cursor .

text \<open>Two \<open>for\<close> statements, one after the other, over the same object.\<close>

definition range_for_twice :: "range \<Rightarrow> size_t list \<times> size_t list \<times> range" where
  "range_for_twice r =
     (let (out1, r1) = range_for r;
          (out2, r2) = range_for r1
      in (out1, out2, r2))"

definition zip_for_twice ::
  "addr \<Rightarrow> 'a store \<Rightarrow> (error + 'a list list \<times> 'a list list \<times> 'a store) option"
where
  "zip_for_twice z s =
     (case zip_for z s of
        None \<Rightarrow> None
      | Some (Inl err) \<Rightarrow> Some (Inl err)
      | Some (Inr (out1, s1)) \<Rightarrow>
          (case zip_for z s1 of
             None \<Rightarrow> None
           | Some (Inl err) \<Rightarrow> Some (Inl err)
           | Some (Inr (out2, s2)) \<Rightarrow> Some (Inr (out1, out2, s2))))"

text \<open>
  The scenario of the specification, \<open>zip([10,20,30], ['a','b'])\<close>: the two containers of
  the caller, at the addresses 0 and 1, before any \<open>zip\<close> object exists.
\<close>

definition caller_store :: "(nat + char) store" where
  "caller_store =
     \<lparr>containers = [0 \<mapsto> [Inl 10, Inl 20, Inl 30], 1 \<mapsto> [Inr CHR ''a'', Inr CHR ''b'']],
      zips = Map.empty\<rparr>"

text \<open>
  The same store after \<open>zip z(v0, v1)\<close> has been constructed at the address 2, and
  after a second object \<open>zip w(v0, v1)\<close>, over the same two containers, has been
  constructed at the address 3.
\<close>

definition one_zip_store :: "(nat + char) store" where
  "one_zip_store = caller_store\<lparr>zips := [2 \<mapsto> \<lparr>zip_arrays = [0, 1], zip_max = 2\<rparr>]\<rparr>"

definition two_zips_store :: "(nat + char) store" where
  "two_zips_store =
     caller_store\<lparr>zips := [2 \<mapsto> \<lparr>zip_arrays = [0, 1], zip_max = 2\<rparr>,
                            3 \<mapsto> \<lparr>zip_arrays = [0, 1], zip_max = 2\<rparr>]\<rparr>"

text \<open>
  A caller with a third container, at the address 4, for a \<open>zip\<close> object that is
  destroyed and whose storage, the address 2, is then used for a second object:
  constructing at an address replaces what was there.
\<close>

definition three_containers_store :: "(nat + char) store" where
  "three_containers_store =
     \<lparr>containers = [0 \<mapsto> [Inl 10, Inl 20, Inl 30], 1 \<mapsto> [Inr CHR ''a'', Inr CHR ''b''],
                    4 \<mapsto> [Inl 7]],
      zips = Map.empty\<rparr>"

section \<open>Auxiliary lemmas\<close>

lemma unat_inc: "(x :: size_t) < y \<Longrightarrow> unat (x + 1) = Suc (unat x)"
  by unat_arith

lemma range_loop_upt:
  "range_Iterator_i b \<le> range_Iterator_i e \<Longrightarrow>
   range_loop b e out = out @ map word_of_nat [unat (range_Iterator_i b) ..< unat (range_Iterator_i e)]"
proof (induction b e out rule: range_loop.induct)
  case (1 b e out)
  show ?case
  proof (cases "range_Iterator_neq b e")
    case False
    then show ?thesis
      by (subst range_loop.simps) (simp add: range_Iterator_neq_def)
  next
    case True
    then have lt: "range_Iterator_i b < range_Iterator_i e"
      using "1.prems" by (simp add: range_Iterator_neq_def)
    then have ult: "unat (range_Iterator_i b) < unat (range_Iterator_i e)"
      by (simp add: word_less_nat_alt)
    have le': "range_Iterator_i b + 1 \<le> range_Iterator_i e"
      using lt by (simp add: inc_le)
    have u1: "unat (range_Iterator_i b + 1) = Suc (unat (range_Iterator_i b))"
      using lt by (rule unat_inc)
    have "range_loop b e out
            = range_loop (range_Iterator_inc b) e (out @ [range_Iterator_deref b])"
      using True by (subst range_loop.simps) simp
    also have "\<dots> = (out @ [range_Iterator_deref b])
          @ map word_of_nat [unat (range_Iterator_i (range_Iterator_inc b)) ..< unat (range_Iterator_i e)]"
      using "1.IH" [OF True] le' by (simp add: range_Iterator_inc_def)
    also have "\<dots> = out @ map word_of_nat [unat (range_Iterator_i b) ..< unat (range_Iterator_i e)]"
      using ult u1 by (simp add: range_Iterator_inc_def range_Iterator_deref_def upt_conv_Cons)
    finally show ?thesis .
  qed
qed

lemma map_unat_upt:
  assumes "n \<le> unat (e :: size_t)"
  shows "map unat (map word_of_nat [m ..< n] :: size_t list) = [m ..< n]"
proof -
  have "map (\<lambda>k. unat (word_of_nat k :: size_t)) [m ..< n] = [m ..< n]"
  proof (rule map_idI)
    fix k assume "k \<in> set [m ..< n]"
    then have "k < unat e" using assms by simp
    then show "unat (word_of_nat k :: size_t) = k" by (rule le_unat_uoi [OF less_imp_le])
  qed
  then show ?thesis by (simp add: comp_def)
qed

lemma those_map_Some: "those (map Some xs) = Some xs"
  by (induction xs) simp_all

lemma container_size_unat:
  "length c < 2 ^ 64 \<Longrightarrow> unat (container_size c) = length c"
  by (simp add: container_size_def unat_of_nat)

lemma min_size_Min:
  assumes "cs \<noteq> []" and "\<forall>c \<in> set cs. length c < 2 ^ 64"
  shows "\<exists>m. min_size cs = Some m \<and> unat m = Min (length ` set cs)"
  using assms
proof (induction cs rule: min_size.induct)
  case 1
  then show ?case by simp
next
  case (2 c)
  then show ?case by (simp add: container_size_unat)
next
  case (3 c d ds)
  then obtain m where m: "min_size (d # ds) = Some m" "unat m = Min (length ` set (d # ds))"
    by auto
  have "unat (min (container_size c) m) = min (length c) (unat m)"
    using 3(3) by (simp add: min_def word_le_nat_alt container_size_unat)
  then show ?case using m by simp
qed

lemma zip_Iterator_get_ok:
  assumes "zips s (zip_Iterator_arrays it) = Some zo"
      and "map (containers s) (zip_arrays zo) = map Some cs"
      and "zip_Iterator_N it = length cs"
      and "\<forall>c \<in> set cs. unat (zip_Iterator_i it) < length c"
      and "M < length cs"
  shows "zip_Iterator_get M s it = Inr (map (\<lambda>c. c ! unat (zip_Iterator_i it)) (drop M cs))"
  using assms(5)
proof (induction "length cs - M" arbitrary: M)
  case 0
  then show ?case by simp
next
  case (Suc n)
  have len: "length (zip_arrays zo) = length cs"
    using assms(2) by (metis length_map)
  have cM: "containers s (zip_arrays zo ! M) = Some (cs ! M)"
    using assms(2) Suc.prems len by (metis nth_map)
  have "cs ! M \<in> set cs" using Suc.prems by simp
  then have inb: "unat (zip_Iterator_i it) < length (cs ! M)" using assms(4) by blast
  have elem: "zip_Iterator_elem M s it = Inr (cs ! M ! unat (zip_Iterator_i it))"
    using assms(1) cM inb len Suc.prems
    by (simp add: zip_Iterator_elem_def container_at_def)
  have dr: "drop M cs = cs ! M # drop (Suc M) cs"
    using Suc.prems by (simp add: Cons_nth_drop_Suc)
  show ?case
  proof (cases "M = length cs - 1")
    case True
    then have "drop (Suc M) cs = []" by simp
    then show ?thesis
      using True elem dr Suc.prems assms(3)
      by (subst zip_Iterator_get.simps) simp
  next
    case False
    then have M1: "M + 1 < length cs" using Suc.prems by simp
    have "n = length cs - (M + 1)" using Suc.hyps(2) by simp
    then have "zip_Iterator_get (M + 1) s it
                 = Inr (map (\<lambda>c. c ! unat (zip_Iterator_i it)) (drop (M + 1) cs))"
      using Suc.hyps(1) M1 by blast
    then show ?thesis
      using False elem dr Suc.prems assms(3)
      by (subst zip_Iterator_get.simps) simp
  qed
qed


lemma zip_loop_ok:
  assumes "zips s z = Some zo"
      and "map (containers s) (zip_arrays zo) = map Some cs"
      and "cs \<noteq> []"
      and "\<forall>c \<in> set cs. unat m \<le> length c"
      and "zip_Iterator_arrays b = z"
      and "zip_Iterator_N b = length cs"
      and "zip_Iterator_i b \<le> m"
  shows "zip_loop s b (zip_Iterator2 (length cs) z m) out
           = Some (Inr (out @ map (\<lambda>k. map (\<lambda>c. c ! k) cs) [unat (zip_Iterator_i b) ..< unat m]))"
  using assms(5-7)
proof (induction "unat m - unat (zip_Iterator_i b)" arbitrary: b out)
  case 0
  then have "unat (zip_Iterator_i b) = unat m"
    by (simp add: word_le_nat_alt)
  then have "zip_Iterator_i b = m" by (simp add: word_unat_eq_iff)
  then have "\<not> zip_Iterator_neq b (zip_Iterator2 (length cs) z m)"
    using "0.prems" by (simp add: zip_Iterator_neq_def zip_Iterator2_def)
  then show ?case
    using \<open>zip_Iterator_i b = m\<close> by (subst zip_loop.simps) simp
next
  case (Suc n)
  then have ult: "unat (zip_Iterator_i b) < unat m" by simp
  then have lt: "zip_Iterator_i b < m" by (simp add: word_less_nat_alt)
  then have ne: "zip_Iterator_neq b (zip_Iterator2 (length cs) z m)"
    by (auto simp: zip_Iterator_neq_def zip_Iterator2_def)
  have u1: "unat (zip_Iterator_i b + 1) = Suc (unat (zip_Iterator_i b))"
    using lt by (rule unat_inc)
  have inb: "\<forall>c \<in> set cs. unat (zip_Iterator_i b) < length c"
    using ult assms(4) by fastforce
  have "0 < length cs" using assms(3) by simp
  then have "zip_Iterator_get 0 s b
               = Inr (map (\<lambda>c. c ! unat (zip_Iterator_i b)) (drop 0 cs))"
    using assms(1,2) Suc.prems inb by (intro zip_Iterator_get_ok) simp_all
  then have deref: "zip_Iterator_deref s b = Inr (map (\<lambda>c. c ! unat (zip_Iterator_i b)) cs)"
    by (simp add: zip_Iterator_deref_def)
  have "n = unat m - unat (zip_Iterator_i (zip_Iterator_inc b))"
    using Suc.hyps(2) u1 by (simp add: zip_Iterator_inc_def)
  moreover have "zip_Iterator_arrays (zip_Iterator_inc b) = z"
    and "zip_Iterator_N (zip_Iterator_inc b) = length cs"
    using Suc.prems by (simp_all add: zip_Iterator_inc_def)
  moreover have "zip_Iterator_i (zip_Iterator_inc b) \<le> m"
    using lt by (simp add: zip_Iterator_inc_def inc_le)
  ultimately have IH: "zip_loop s (zip_Iterator_inc b) (zip_Iterator2 (length cs) z m)
                     (out @ [map (\<lambda>c. c ! unat (zip_Iterator_i b)) cs])
           = Some (Inr ((out @ [map (\<lambda>c. c ! unat (zip_Iterator_i b)) cs])
                @ map (\<lambda>k. map (\<lambda>c. c ! k) cs)
                    [unat (zip_Iterator_i (zip_Iterator_inc b)) ..< unat m]))"
    using Suc.hyps(1) by blast
  have "zip_loop s b (zip_Iterator2 (length cs) z m) out
          = zip_loop s (zip_Iterator_inc b) (zip_Iterator2 (length cs) z m)
              (out @ [map (\<lambda>c. c ! unat (zip_Iterator_i b)) cs])"
    using ne deref by (subst zip_loop.simps) simp
  also have "\<dots> = Some (Inr (out @ map (\<lambda>k. map (\<lambda>c. c ! k) cs)
                                 [unat (zip_Iterator_i b) ..< unat m]))"
    using IH ult u1 by (simp add: zip_Iterator_inc_def upt_conv_Cons)
  finally show ?case .
qed

lemma zip_for_ok:
  assumes "zips s z = Some zo"
      and "map (containers s) (zip_arrays zo) = map Some cs"
      and "cs \<noteq> []"
      and "\<forall>c \<in> set cs. unat (zip_max zo) \<le> length c"
  shows "zip_for z s
           = Some (Inr (map (\<lambda>k. map (\<lambda>c. c ! k) cs) [0 ..< unat (zip_max zo)], s))"
proof -
  have len: "length (zip_arrays zo) = length cs"
    using assms(2) by (metis length_map)
  have "zip_loop s (zip_Iterator2 (length cs) z 0) (zip_Iterator2 (length cs) z (zip_max zo)) []
          = Some (Inr ([] @ map (\<lambda>k. map (\<lambda>c. c ! k) cs)
                [unat (zip_Iterator_i (zip_Iterator2 (length cs) z 0)) ..< unat (zip_max zo)]))"
    using assms by (intro zip_loop_ok) (simp_all add: zip_Iterator2_def)
  then show ?thesis
    using assms(1) len by (simp add: zip_for_def zip_begin_def zip_end_def zip_Iterator2_def)
qed

lemma zip_ctor_ok:
  assumes "cs \<noteq> []"
      and "\<forall>c \<in> set cs. length c < 2 ^ 64"
      and "map (containers s) args = map Some cs"
  shows "\<exists>m. unat m = Min (length ` set cs)
           \<and> zip_ctor z args s
               = Inr (s\<lparr>zips := (zips s)(z \<mapsto> \<lparr>zip_arrays = args, zip_max = m\<rparr>)\<rparr>)"
proof -
  obtain m where "min_size cs = Some m" "unat m = Min (length ` set cs)"
    using min_size_Min [OF assms(1,2)] by blast
  then show ?thesis
    using assms(3) by (intro exI [of _ m]) (simp add: zip_ctor_def those_map_Some)
qed

lemma zip_loop_returns:
  assumes "zip_Iterator_arrays b = zip_Iterator_arrays e"
  shows "\<exists>r. zip_loop s b e out = Some r"
  using assms
proof (induction "unat (zip_Iterator_i e - zip_Iterator_i b)" arbitrary: b out)
  case 0
  then have "zip_Iterator_i e - zip_Iterator_i b = 0" by (simp add: unat_eq_zero)
  then have "\<not> zip_Iterator_neq b e"
    using "0.prems" by (simp add: zip_Iterator_neq_def)
  then show ?case by (subst zip_loop.simps) simp
next
  case (Suc n)
  show ?case
  proof (cases "zip_Iterator_deref s b")
    case (Inl err)
    then show ?thesis by (subst zip_loop.simps) simp
  next
    case (Inr t)
    have nz: "zip_Iterator_i e - zip_Iterator_i b \<noteq> 0"
      using Suc.hyps(2) by (metis Zero_not_Suc unat_0)
    then have ne: "zip_Iterator_neq b e" by (simp add: zip_Iterator_neq_def)
    have "unat (zip_Iterator_i e - zip_Iterator_i b - 1) = n"
      using nz Suc.hyps(2) by (simp add: unat_minus_one)
    also have "zip_Iterator_i e - zip_Iterator_i b - 1
                 = zip_Iterator_i e - zip_Iterator_i (zip_Iterator_inc b)"
      by (simp add: zip_Iterator_inc_def)
    finally have "n = unat (zip_Iterator_i e - zip_Iterator_i (zip_Iterator_inc b))"
      by simp
    moreover have "zip_Iterator_arrays (zip_Iterator_inc b) = zip_Iterator_arrays e"
      using Suc.prems by (simp add: zip_Iterator_inc_def)
    ultimately have "\<exists>r. zip_loop s (zip_Iterator_inc b) e (out @ [t]) = Some r"
      using Suc.hyps(1) by blast
    then show ?thesis
      using ne Inr by (subst zip_loop.simps) simp
  qed
qed

lemma zip_for_returns:
  assumes "zips s z = Some zo"
  shows "\<exists>r. zip_for z s = Some r"
proof -
  obtain r where "zip_loop s (zip_Iterator2 (length (zip_arrays zo)) z 0)
                    (zip_Iterator2 (length (zip_arrays zo)) z (zip_max zo)) [] = Some r"
    using zip_loop_returns [of "zip_Iterator2 (length (zip_arrays zo)) z 0"
                               "zip_Iterator2 (length (zip_arrays zo)) z (zip_max zo)" s "[]"]
    by (auto simp: zip_Iterator2_def)
  then show ?thesis
    using assms
    by (cases r) (auto simp: zip_for_def zip_begin_def zip_end_def)
qed

lemma zip_Iterator_inc_funpow:
  "zip_Iterator_i ((zip_Iterator_inc ^^ k) it) = zip_Iterator_i it + word_of_nat k
   \<and> zip_Iterator_arrays ((zip_Iterator_inc ^^ k) it) = zip_Iterator_arrays it"
  by (induction k) (simp_all add: zip_Iterator_inc_def)

lemma zip_cursor_arrays:
  "zip_cursor s z it \<Longrightarrow> zip_Iterator_arrays it = z"
proof (induction rule: zip_cursor.induct)
  case (from_begin it s')
  then show ?case
    by (auto simp: zip_begin_def zip_Iterator2_def split: option.splits)
next
  case (from_end it s')
  then show ?case
    by (auto simp: zip_end_def zip_Iterator2_def split: option.splits)
next
  case (advanced it)
  then show ?case by (simp add: zip_Iterator_inc_def)
qed

lemma caller_store_containers:
  "map (containers caller_store) [0, 1]
     = map Some [[Inl 10, Inl 20, Inl 30], [Inr CHR ''a'', Inr CHR ''b'']]"
  by (simp add: caller_store_def)

lemma one_zip_store_ctor: "zip_ctor 2 [0, 1] caller_store = Inr one_zip_store"
  by (simp add: zip_ctor_def caller_store_def one_zip_store_def container_size_def)

lemma two_zips_store_ctor: "zip_ctor 3 [0, 1] one_zip_store = Inr two_zips_store"
  by (simp add: zip_ctor_def caller_store_def one_zip_store_def two_zips_store_def
      container_size_def)

lemma zip_begin_live:
  "zips s z = Some zo \<Longrightarrow> zip_begin z s = Inr (zip_Iterator2 (length (zip_arrays zo)) z 0, s)"
  by (simp add: zip_begin_def)

lemma zip_end_live:
  "zips s z = Some zo \<Longrightarrow>
     zip_end z s = Inr (zip_Iterator2 (length (zip_arrays zo)) z (zip_max zo), s)"
  by (simp add: zip_end_def)

lemma zip_for_store:
  "zip_for z s = Some (Inr (out, s1)) \<Longrightarrow> s1 = s"
  by (auto simp: zip_for_def zip_begin_def zip_end_def
      split: option.splits sum.splits)

section \<open>The claims\<close>

text \<open>
  C1. For \<open>start \<le> stop\<close>, the statement \<open>for (i : range(start, stop))\<close> constructs the
  range and visits exactly the ascending integers \<open>start, start + 1, \<dots>, stop - 1\<close>, in
  that order, in \<open>stop - start\<close> iterations; \<open>range(n, n)\<close> visits nothing.
\<close>

theorem range_yields_ascending:
  "start \<le> stop \<Longrightarrow>
     (\<exists>out. for_range2 start stop = Inr out
        \<and> out = map word_of_nat [unat start ..< unat stop]
        \<and> map unat out = [unat start ..< unat stop]
        \<and> length out = unat stop - unat start)
     \<and> for_range2 n n = Inr []"
proof -
  assume le: "start \<le> stop"
  have loop: "range_loop (range_Iterator2 i m) (range_Iterator2 m m) []
          = map word_of_nat [unat i ..< unat m]" if "i \<le> m" for i m :: size_t
    using range_loop_upt [of "range_Iterator2 i m" "range_Iterator2 m m" "[]"] that
    by (simp add: range_Iterator2_def)
  have run: "for_range2 i m = Inr (map word_of_nat [unat i ..< unat m])"
    if "i \<le> m" for i m :: size_t
    using that loop [OF that]
    by (simp add: for_range2_def range2_def range_for_def range_begin_def range_end_def)
  have "map unat (map word_of_nat [unat start ..< unat stop] :: size_t list)
          = [unat start ..< unat stop]"
    by (rule map_unat_upt [where e = stop]) simp
  moreover have "for_range2 n n = Inr []"
    using run [of n n] by simp
  ultimately show ?thesis
    using run [OF le] by simp
qed

theorem range_yields_ascending_witness:
  "(2 :: size_t) \<le> 5 \<and> for_range2 2 5 = Inr [2, 3, 4] \<and> for_range2 (7 :: size_t) 7 = Inr []"
  using range_yields_ascending [of 2 5 7] by (auto simp: upt_conv_Cons)

text \<open>
  C2. For \<open>N \<ge> 1\<close> containers \<open>cs\<close> of the caller (of sizes that a \<open>std::size_t\<close>
  holds), at the addresses \<open>args\<close>, constructing \<open>zip(args...)\<close> and iterating it from
  \<open>begin()\<close> to \<open>end()\<close> yields exactly \<open>min (length c)\<close> tuples; tuple \<open>i\<close> is
  \<open>(c\<^sub>0[i], \<dots>, c\<^sub>N\<^sub>-\<^sub>1[i])\<close>, in declaration order; with an empty container among
  them nothing is yielded.
\<close>

theorem zip_yields_min_tuples:
  assumes "cs \<noteq> []"
      and "\<forall>c \<in> set cs. length c < 2 ^ 64"
      and "map (containers s) args = map Some cs"
  shows "\<exists>s' out. zip_ctor z args s = Inr s'
           \<and> zip_for z s' = Some (Inr (out, s'))
           \<and> length out = Min (length ` set cs)
           \<and> (\<forall>i < length out. out ! i = map (\<lambda>c. c ! i) cs)
           \<and> ([] \<in> set cs \<longrightarrow> out = [])"
proof -
  obtain m where m: "unat m = Min (length ` set cs)"
    and ctor: "zip_ctor z args s
                 = Inr (s\<lparr>zips := (zips s)(z \<mapsto> \<lparr>zip_arrays = args, zip_max = m\<rparr>)\<rparr>)"
    using zip_ctor_ok [OF assms] by blast
  define s' where "s' = s\<lparr>zips := (zips s)(z \<mapsto> \<lparr>zip_arrays = args, zip_max = m\<rparr>)\<rparr>"
  define out where "out = map (\<lambda>k. map (\<lambda>c. c ! k) cs) [0 ..< unat m]"
  have live: "zips s' z = Some \<lparr>zip_arrays = args, zip_max = m\<rparr>"
    by (simp add: s'_def)
  have refs: "map (containers s') (zip_arrays \<lparr>zip_arrays = args, zip_max = m\<rparr>) = map Some cs"
    using assms(3) by (simp add: s'_def)
  have bound: "\<forall>c \<in> set cs. unat (zip_max \<lparr>zip_arrays = args, zip_max = m\<rparr>) \<le> length c"
    using m by simp
  have "zip_for z s' = Some (Inr (out, s'))"
    using zip_for_ok [OF live refs assms(1) bound] by (simp add: out_def)
  moreover have "length out = Min (length ` set cs)"
    using m by (simp add: out_def)
  moreover have "\<forall>i < length out. out ! i = map (\<lambda>c. c ! i) cs"
    by (simp add: out_def)
  moreover have "out = []" if "[] \<in> set cs"
  proof -
    have "Min (length ` set cs) \<le> length ([] :: 'a list)"
      using that by (intro Min_le) auto
    then show ?thesis using m by (simp add: out_def)
  qed
  ultimately show ?thesis
    using ctor by (auto simp: s'_def)
qed

theorem zip_yields_min_tuples_witness:
  "[[Inl 10, Inl 20, Inl 30], [Inr CHR ''a'', Inr CHR ''b'']] \<noteq> ([] :: (nat + char) list list)
   \<and> length [Inl 10, Inl 20, Inl 30 :: nat + char] < 2 ^ 64
   \<and> length [Inr CHR ''a'', Inr CHR ''b'' :: nat + char] < 2 ^ 64
   \<and> map (containers caller_store) [0, 1]
        = map Some [[Inl 10, Inl 20, Inl 30], [Inr CHR ''a'', Inr CHR ''b'']]
   \<and> (\<exists>s'. zip_ctor 2 [0, 1] caller_store = Inr s'
         \<and> zip_for 2 s' = Some (Inr ([[Inl 10, Inr CHR ''a''], [Inl 20, Inr CHR ''b'']], s')))"
proof -
  let ?cs = "[[Inl 10, Inl 20, Inl 30], [Inr CHR ''a'', Inr CHR ''b'']] :: (nat + char) list list"
  have h1: "?cs \<noteq> []" by simp
  have h2: "\<forall>c \<in> set ?cs. length c < 2 ^ 64" by simp
  obtain s' out where r: "zip_ctor 2 [0, 1] caller_store = Inr s'"
      "zip_for 2 s' = Some (Inr (out, s'))"
      "length out = Min (length ` set ?cs)"
      "\<forall>i < length out. out ! i = map (\<lambda>c. c ! i) ?cs"
    using zip_yields_min_tuples [OF h1 h2 caller_store_containers, of 2] by blast
  have len: "length out = 2" using r(3) by simp
  then have "out ! 0 = [Inl 10, Inr CHR ''a'']" "out ! 1 = [Inl 20, Inr CHR ''b'']"
    using r(4) by simp_all
  then have "out = [[Inl 10, Inr CHR ''a''], [Inl 20, Inr CHR ''b'']]"
    using len by (intro nth_equalityI) (auto simp: less_Suc_eq numeral_2_eq_2)
  then show ?thesis
    using h1 h2 r(1,2) caller_store_containers by simp
qed

text \<open>
  C3. For \<open>start > stop\<close> the constructor \<open>range(start, stop)\<close> fails its assertion: the
  process is aborted (no exception, no range object with clamped bounds), so the \<open>for\<close>
  statement over it never starts iterating.
\<close>

theorem range_ctor_aborts:
  "stop < start \<Longrightarrow>
     range2 start stop = Inl AssertionFailed \<and> for_range2 start stop = Inl AssertionFailed"
  by (simp add: range2_def for_range2_def not_le)

theorem range_ctor_aborts_witness:
  "(2 :: size_t) < 5 \<and> range2 5 2 = Inl AssertionFailed \<and> for_range2 5 2 = Inl AssertionFailed"
  using range_ctor_aborts [of 2 5] by simp

text \<open>
  C4. Two range cursors compare unequal exactly when their positions differ: the bounds
  they carry play no role, and neither does the range they were obtained from.
\<close>

theorem range_Iterator_neq_position:
  "(range_Iterator_neq a b \<longleftrightarrow> range_Iterator_i a \<noteq> range_Iterator_i b)
   \<and> range_Iterator_neq (a\<lparr>range_Iterator_max := m\<rparr>) (b\<lparr>range_Iterator_max := m'\<rparr>)
       = range_Iterator_neq a b
   \<and> (range_Iterator_neq (fst (range_begin r)) (fst (range_end r'))
        \<longleftrightarrow> range_i r \<noteq> range_max r')
   \<and> (range_Iterator_neq (fst (range_begin r)) (fst (range_begin r'))
        \<longleftrightarrow> range_i r \<noteq> range_i r')"
  by (simp add: range_Iterator_neq_def range_begin_def range_end_def range_Iterator2_def)

text \<open>
  C5. Two \<open>zip\<close> cursors compare unequal exactly when their positions differ or the tuples
  they refer to are different objects. The cursors of \<open>begin()\<close> and \<open>end()\<close> of one
  object refer to the same tuple, so that the cursor advanced \<open>k \<le> limit\<close> times from
  \<open>begin()\<close> differs from \<open>end()\<close> exactly while \<open>k < limit\<close>: the loop ends, and it ends
  when the position reaches the limit.
\<close>

theorem zip_Iterator_neq_position_or_identity:
  "(zip_Iterator_neq x y \<longleftrightarrow>
      zip_Iterator_i x \<noteq> zip_Iterator_i y \<or> zip_Iterator_arrays x \<noteq> zip_Iterator_arrays y)
   \<and> (zips s z = Some zo \<longrightarrow>
        (\<exists>b e. zip_begin z s = Inr (b, s) \<and> zip_end z s = Inr (e, s)
           \<and> zip_Iterator_arrays b = zip_Iterator_arrays e
           \<and> (\<forall>k \<le> unat (zip_max zo).
                 unat (zip_Iterator_i ((zip_Iterator_inc ^^ k) b)) = k
                 \<and> (zip_Iterator_neq ((zip_Iterator_inc ^^ k) b) e \<longleftrightarrow> k < unat (zip_max zo)))
           \<and> (\<exists>r. zip_for z s = Some r)))"
proof -
  have "\<exists>b e. zip_begin z s = Inr (b, s) \<and> zip_end z s = Inr (e, s)
           \<and> zip_Iterator_arrays b = zip_Iterator_arrays e
           \<and> (\<forall>k \<le> unat (zip_max zo).
                 unat (zip_Iterator_i ((zip_Iterator_inc ^^ k) b)) = k
                 \<and> (zip_Iterator_neq ((zip_Iterator_inc ^^ k) b) e \<longleftrightarrow> k < unat (zip_max zo)))
           \<and> (\<exists>r. zip_for z s = Some r)"
    if live: "zips s z = Some zo"
  proof -
    define b where "b = zip_Iterator2 (length (zip_arrays zo)) z 0"
    define e where "e = zip_Iterator2 (length (zip_arrays zo)) z (zip_max zo)"
    have pos: "unat (zip_Iterator_i ((zip_Iterator_inc ^^ k) b)) = k"
      if "k \<le> unat (zip_max zo)" for k
      using that zip_Iterator_inc_funpow [of k b]
      by (simp add: b_def zip_Iterator2_def le_unat_uoi)
    have cmp: "zip_Iterator_neq ((zip_Iterator_inc ^^ k) b) e \<longleftrightarrow> k < unat (zip_max zo)"
      if "k \<le> unat (zip_max zo)" for k
    proof -
      have "zip_Iterator_arrays ((zip_Iterator_inc ^^ k) b) = zip_Iterator_arrays e"
        using zip_Iterator_inc_funpow [of k b] by (simp add: b_def e_def zip_Iterator2_def)
      then have "zip_Iterator_neq ((zip_Iterator_inc ^^ k) b) e
                   \<longleftrightarrow> unat (zip_Iterator_i ((zip_Iterator_inc ^^ k) b)) \<noteq> unat (zip_max zo)"
        by (simp add: zip_Iterator_neq_def e_def zip_Iterator2_def word_unat_eq_iff)
      then show ?thesis using that pos [OF that] by auto
    qed
    have "zip_begin z s = Inr (b, s)" "zip_end z s = Inr (e, s)"
      using live by (simp_all add: b_def e_def zip_begin_live zip_end_live)
    moreover have "zip_Iterator_arrays b = zip_Iterator_arrays e"
      by (simp add: b_def e_def zip_Iterator2_def)
    moreover have "\<exists>r. zip_for z s = Some r"
      using live by (rule zip_for_returns)
    ultimately show ?thesis
      using pos cmp by blast
  qed
  then show ?thesis
    by (simp add: zip_Iterator_neq_def)
qed

theorem zip_Iterator_neq_position_or_identity_witness:
  "zips one_zip_store 2 = Some \<lparr>zip_arrays = [0, 1], zip_max = 2\<rparr>
   \<and> (\<exists>b e. zip_begin 2 one_zip_store = Inr (b, one_zip_store)
         \<and> zip_end 2 one_zip_store = Inr (e, one_zip_store)
         \<and> zip_Iterator_neq b e
         \<and> zip_Iterator_neq (zip_Iterator_inc b) e
         \<and> \<not> zip_Iterator_neq (zip_Iterator_inc (zip_Iterator_inc b)) e
         \<and> (\<exists>r. zip_for 2 one_zip_store = Some r))"
proof -
  have live: "zips one_zip_store 2 = Some \<lparr>zip_arrays = [0, 1], zip_max = 2\<rparr>"
    by (simp add: one_zip_store_def)
  obtain b e where r: "zip_begin 2 one_zip_store = Inr (b, one_zip_store)"
      "zip_end 2 one_zip_store = Inr (e, one_zip_store)"
      "\<forall>k \<le> unat (zip_max \<lparr>zip_arrays = [0, 1], zip_max = 2\<rparr>).
          unat (zip_Iterator_i ((zip_Iterator_inc ^^ k) b)) = k
          \<and> (zip_Iterator_neq ((zip_Iterator_inc ^^ k) b) e
               \<longleftrightarrow> k < unat (zip_max \<lparr>zip_arrays = [0, 1], zip_max = 2\<rparr>))"
      "\<exists>r. zip_for 2 one_zip_store = Some r"
    using zip_Iterator_neq_position_or_identity
            [of _ _ one_zip_store 2 "\<lparr>zip_arrays = [0, 1], zip_max = 2\<rparr>"] live
    by blast
  have "zip_Iterator_neq ((zip_Iterator_inc ^^ 0) b) e"
       "zip_Iterator_neq ((zip_Iterator_inc ^^ Suc 0) b) e"
       "\<not> zip_Iterator_neq ((zip_Iterator_inc ^^ Suc (Suc 0)) b) e"
    using r(3) [rule_format, of 0] r(3) [rule_format, of "Suc 0"]
      r(3) [rule_format, of "Suc (Suc 0)"]
    by simp_all
  then show ?thesis
    using live r(1,2,4) by auto
qed

text \<open>
  C6. \<open>begin()\<close> and \<open>end()\<close> leave the object (and the store) as they found it, and so
  does a whole pass; two passes over the same range, or over the same \<open>zip\<close> object,
  yield the same output twice. For a \<open>zip\<close> object whose containers are alive and at
  least \<open>max_\<close> long, both passes run to their end.
\<close>

theorem iteration_is_restartable:
  "snd (range_begin r) = r \<and> snd (range_end r) = r \<and> snd (range_for r) = r
   \<and> range_for_twice r = (fst (range_for r), fst (range_for r), r)
   \<and> (zips s z = Some zo \<longrightarrow>
        (\<exists>b e. zip_begin z s = Inr (b, s) \<and> zip_end z s = Inr (e, s))
        \<and> (\<exists>res. zip_for z s = Some res
             \<and> (case res of
                   Inl err \<Rightarrow> zip_for_twice z s = Some (Inl err)
                 | Inr (out, s1) \<Rightarrow> s1 = s \<and> zip_for_twice z s = Some (Inr (out, out, s)))))
   \<and> (zips s z = Some zo \<and> map (containers s) (zip_arrays zo) = map Some cs \<and> cs \<noteq> []
        \<and> (\<forall>c \<in> set cs. unat (zip_max zo) \<le> length c) \<longrightarrow>
        (\<exists>out. zip_for z s = Some (Inr (out, s))
           \<and> zip_for_twice z s = Some (Inr (out, out, s))))"
proof -
  have range_part: "snd (range_begin r) = r \<and> snd (range_end r) = r \<and> snd (range_for r) = r
     \<and> range_for_twice r = (fst (range_for r), fst (range_for r), r)"
    by (simp add: range_begin_def range_end_def range_for_def range_for_twice_def)
  have twice: "zip_for_twice z s = Some (Inr (out, out, s))"
    if "zip_for z s = Some (Inr (out, s))" for out
    using that by (simp add: zip_for_twice_def)
  have live_part: "(\<exists>b e. zip_begin z s = Inr (b, s) \<and> zip_end z s = Inr (e, s))
        \<and> (\<exists>res. zip_for z s = Some res
             \<and> (case res of
                   Inl err \<Rightarrow> zip_for_twice z s = Some (Inl err)
                 | Inr (out, s1) \<Rightarrow> s1 = s \<and> zip_for_twice z s = Some (Inr (out, out, s))))"
    if live: "zips s z = Some zo"
  proof -
    obtain res where res: "zip_for z s = Some res"
      using zip_for_returns [OF live] by blast
    have "case res of
            Inl err \<Rightarrow> zip_for_twice z s = Some (Inl err)
          | Inr (out, s1) \<Rightarrow> s1 = s \<and> zip_for_twice z s = Some (Inr (out, out, s))"
    proof (cases res)
      case (Inl err)
      then show ?thesis using res by (simp add: zip_for_twice_def)
    next
      case (Inr p)
      obtain out s1 where p: "p = (out, s1)" by (cases p)
      then have "s1 = s" using res Inr zip_for_store by blast
      then show ?thesis using res Inr p twice by simp
    qed
    then show ?thesis
      using res zip_begin_live [OF live] zip_end_live [OF live] by blast
  qed
  have wf_part: "\<exists>out. zip_for z s = Some (Inr (out, s))
           \<and> zip_for_twice z s = Some (Inr (out, out, s))"
    if "zips s z = Some zo" and "map (containers s) (zip_arrays zo) = map Some cs"
      and "cs \<noteq> []" and "\<forall>c \<in> set cs. unat (zip_max zo) \<le> length c"
    using zip_for_ok [OF that] twice by blast
  show ?thesis
    using range_part live_part wf_part by blast
qed

theorem iteration_is_restartable_witness:
  "zips one_zip_store 2 = Some \<lparr>zip_arrays = [0, 1], zip_max = 2\<rparr>
   \<and> map (containers one_zip_store) [0, 1]
        = map Some [[Inl 10, Inl 20, Inl 30], [Inr CHR ''a'', Inr CHR ''b'']]
   \<and> unat (2 :: size_t) \<le> length [Inl 10, Inl 20, Inl 30 :: nat + char]
   \<and> unat (2 :: size_t) \<le> length [Inr CHR ''a'', Inr CHR ''b'' :: nat + char]
   \<and> (\<exists>b e. zip_begin 2 one_zip_store = Inr (b, one_zip_store)
         \<and> zip_end 2 one_zip_store = Inr (e, one_zip_store))
   \<and> (\<exists>out. zip_for 2 one_zip_store = Some (Inr (out, one_zip_store))
         \<and> zip_for_twice 2 one_zip_store = Some (Inr (out, out, one_zip_store)))
   \<and> range_for_twice \<lparr>range_i = 2, range_max = 5\<rparr>
        = (fst (range_for \<lparr>range_i = 2, range_max = 5\<rparr>),
           fst (range_for \<lparr>range_i = 2, range_max = 5\<rparr>), \<lparr>range_i = 2, range_max = 5\<rparr>)"
proof -
  let ?cs = "[[Inl 10, Inl 20, Inl 30], [Inr CHR ''a'', Inr CHR ''b'']] :: (nat + char) list list"
  let ?zo = "\<lparr>zip_arrays = [0, 1], zip_max = 2\<rparr>"
  have live: "zips one_zip_store 2 = Some ?zo"
    by (simp add: one_zip_store_def)
  have refs: "map (containers one_zip_store) [0, 1] = map Some ?cs"
    by (simp add: one_zip_store_def caller_store_def)
  have bound: "\<forall>c \<in> set ?cs. unat (2 :: size_t) \<le> length c"
    by simp
  show ?thesis
    using iteration_is_restartable
            [of "\<lparr>range_i = 2, range_max = 5\<rparr>" one_zip_store 2 ?zo ?cs] live refs bound
    by simp
qed

text \<open>
  C7, as amended. Advancing a range cursor adds one to its position in \<open>std::size_t\<close>
  arithmetic, modulo \<open>2 ^ 64\<close>: below the largest value the new position is exactly one more,
  at the largest value it is 0. The bound is neither read nor changed.
\<close>

theorem range_Iterator_inc_position:
  "range_Iterator_i (range_Iterator_inc it) = range_Iterator_i it + 1
   \<and> unat (range_Iterator_i (range_Iterator_inc it))
       = (unat (range_Iterator_i it) + 1) mod 2 ^ 64
   \<and> (unat (range_Iterator_i it) < 2 ^ 64 - 1 \<longrightarrow>
        unat (range_Iterator_i (range_Iterator_inc it)) = unat (range_Iterator_i it) + 1)
   \<and> (unat (range_Iterator_i it) = 2 ^ 64 - 1 \<longrightarrow>
        range_Iterator_i (range_Iterator_inc it) = 0)
   \<and> range_Iterator_max (range_Iterator_inc it) = range_Iterator_max it
   \<and> range_Iterator_i (range_Iterator_inc (it\<lparr>range_Iterator_max := m\<rparr>))
       = range_Iterator_i (range_Iterator_inc it)"
proof -
  have mod: "unat (range_Iterator_i it + 1) = (unat (range_Iterator_i it) + 1) mod 2 ^ 64"
    by (simp add: unat_word_ariths)
  have "range_Iterator_i it + 1 = 0" if "unat (range_Iterator_i it) = 2 ^ 64 - 1"
  proof -
    have "unat (range_Iterator_i it + 1) = 0" using that mod by simp
    then show ?thesis by (simp add: unat_eq_zero)
  qed
  then show ?thesis
    using mod by (simp add: range_Iterator_inc_def)
qed

theorem range_Iterator_inc_position_witness:
  "unat (range_Iterator_i (range_Iterator2 2 5)) < 2 ^ 64 - 1
   \<and> unat (range_Iterator_i (range_Iterator_inc (range_Iterator2 2 5))) = 3
   \<and> unat (range_Iterator_i (range_Iterator2 18446744073709551615 18446744073709551615)) = 2 ^ 64 - 1
   \<and> range_Iterator_i (range_Iterator_inc (range_Iterator2 18446744073709551615 18446744073709551615)) = 0"
  using range_Iterator_inc_position [of "range_Iterator2 2 5"]
        range_Iterator_inc_position [of "range_Iterator2 18446744073709551615 18446744073709551615"]
  by (simp add: range_Iterator2_def)

text \<open>
  C7, as stated, fails: the cursor that \<open>range(0, SIZE_MAX).end()\<close> returns has the position
  \<open>2 ^ 64 - 1\<close>, and advancing it gives the position 0, not \<open>2 ^ 64\<close>.
\<close>

theorem range_Iterator_inc_wraps:
  "range2 0 18446744073709551615 = Inr \<lparr>range_i = 0, range_max = 18446744073709551615\<rparr>
   \<and> unat (range_Iterator_i (fst (range_end \<lparr>range_i = 0, range_max = 18446744073709551615\<rparr>)))
       = 18446744073709551615
   \<and> unat (range_Iterator_i
        (range_Iterator_inc (fst (range_end \<lparr>range_i = 0, range_max = 18446744073709551615\<rparr>)))) = 0
   \<and> unat (range_Iterator_i
        (range_Iterator_inc (fst (range_end \<lparr>range_i = 0, range_max = 18446744073709551615\<rparr>))))
       \<noteq> unat (range_Iterator_i (fst (range_end \<lparr>range_i = 0, range_max = 18446744073709551615\<rparr>))) + 1"
  by (simp add: range2_def range_end_def range_Iterator2_def range_Iterator_inc_def)

text \<open>
  C8. Dereferencing a range cursor always returns its position, whatever its bound; the
  cursor that \<open>end()\<close> returns dereferences to the bound \<open>max_\<close> of the range, which for
  \<open>range(start, stop)\<close> is \<open>stop\<close>, a value outside the span that is iterated.
\<close>

theorem range_Iterator_deref_position:
  "range_Iterator_deref it = range_Iterator_i it
   \<and> range_Iterator_deref (fst (range_end r)) = range_max r
   \<and> (start \<le> stop \<longrightarrow>
        (\<exists>r. range2 start stop = Inr r
            \<and> range_Iterator_deref (fst (range_end r)) = stop
            \<and> stop \<notin> set (fst (range_for r))))"
proof -
  have "stop \<notin> set (fst (range_for \<lparr>range_i = start, range_max = stop\<rparr>))" if "start \<le> stop"
  proof
    assume "stop \<in> set (fst (range_for \<lparr>range_i = start, range_max = stop\<rparr>))"
    then have "stop \<in> set (map word_of_nat [unat start ..< unat stop])"
      using range_loop_upt [of "range_Iterator2 start stop" "range_Iterator2 stop stop" "[]"] that
      by (simp add: range_for_def range_begin_def range_end_def range_Iterator2_def)
    then have "unat stop \<in> set (map unat (map word_of_nat [unat start ..< unat stop] :: size_t list))"
      by (metis imageI set_map)
    also have "map unat (map word_of_nat [unat start ..< unat stop] :: size_t list)
                 = [unat start ..< unat stop]"
      by (rule map_unat_upt [where e = stop]) simp
    finally have "unat stop \<in> set [unat start ..< unat stop]" .
    then show False by simp
  qed
  then show ?thesis
    by (simp add: range_Iterator_deref_def range_end_def range_Iterator2_def range2_def)
qed

theorem range_Iterator_deref_position_witness:
  "(2 :: size_t) \<le> 5
   \<and> range_Iterator_deref (fst (range_end \<lparr>range_i = 2, range_max = 5\<rparr>)) = 5
   \<and> (\<exists>r. range2 2 5 = Inr r \<and> range_Iterator_deref (fst (range_end r)) = 5
         \<and> 5 \<notin> set (fst (range_for r)))"
  using range_Iterator_deref_position
          [of "fst (range_end \<lparr>range_i = 2, range_max = 5\<rparr>)" "\<lparr>range_i = 2, range_max = 5\<rparr>" 2 5]
  by auto

text \<open>
  C9. For a \<open>zip\<close> object at the address \<open>z\<close>, the cursors of \<open>begin()\<close> and \<open>end()\<close>
  both refer to the tuple \<open>arrays_\<close> of that object, advancing a cursor leaves the
  reference as it is, so that every cursor obtained from the object refers to that tuple;
  and \<open>begin() != end()\<close> exactly when \<open>max_\<close> is not 0.
\<close>

theorem zip_begin_end_share_identity:
  "zips s z = Some zo \<Longrightarrow>
     (\<exists>b e. zip_begin z s = Inr (b, s) \<and> zip_end z s = Inr (e, s)
        \<and> zip_Iterator_arrays b = z \<and> zip_Iterator_arrays e = z
        \<and> (zip_Iterator_neq b e \<longleftrightarrow> zip_max zo \<noteq> 0))
     \<and> zip_Iterator_arrays (zip_Iterator_inc x) = zip_Iterator_arrays x
     \<and> (\<forall>it. zip_cursor s z it \<longrightarrow> zip_Iterator_arrays it = z)"
proof -
  assume live: "zips s z = Some zo"
  have "zip_Iterator_neq (zip_Iterator2 (length (zip_arrays zo)) z 0)
          (zip_Iterator2 (length (zip_arrays zo)) z (zip_max zo)) \<longleftrightarrow> zip_max zo \<noteq> 0"
    by (auto simp: zip_Iterator_neq_def zip_Iterator2_def)
  then have "\<exists>b e. zip_begin z s = Inr (b, s) \<and> zip_end z s = Inr (e, s)
        \<and> zip_Iterator_arrays b = z \<and> zip_Iterator_arrays e = z
        \<and> (zip_Iterator_neq b e \<longleftrightarrow> zip_max zo \<noteq> 0)"
    using zip_begin_live [OF live] zip_end_live [OF live]
    by (simp add: zip_Iterator2_def)
  moreover have "zip_Iterator_arrays (zip_Iterator_inc x) = zip_Iterator_arrays x"
    by (simp add: zip_Iterator_inc_def)
  moreover have "\<forall>it. zip_cursor s z it \<longrightarrow> zip_Iterator_arrays it = z"
    using zip_cursor_arrays by blast
  ultimately show ?thesis by blast
qed

theorem zip_begin_end_share_identity_witness:
  "zips one_zip_store 2 = Some \<lparr>zip_arrays = [0, 1], zip_max = 2\<rparr>
   \<and> zip_cursor one_zip_store 2 (zip_Iterator_inc (zip_Iterator2 2 2 0))
   \<and> zip_Iterator_arrays (zip_Iterator_inc (zip_Iterator2 2 2 0)) = 2
   \<and> (\<exists>b e. zip_begin 2 one_zip_store = Inr (b, one_zip_store)
         \<and> zip_end 2 one_zip_store = Inr (e, one_zip_store)
         \<and> zip_Iterator_arrays b = 2 \<and> zip_Iterator_arrays e = 2
         \<and> zip_Iterator_neq b e)"
proof -
  have live: "zips one_zip_store 2 = Some \<lparr>zip_arrays = [0, 1], zip_max = 2\<rparr>"
    by (simp add: one_zip_store_def)
  have "zip_begin 2 one_zip_store = Inr (zip_Iterator2 2 2 0, one_zip_store)"
    using zip_begin_live [OF live] by (simp add: numeral_2_eq_2)
  then have cur: "zip_cursor one_zip_store 2 (zip_Iterator_inc (zip_Iterator2 2 2 0))"
    by (intro zip_cursor.advanced zip_cursor.from_begin)
  show ?thesis
    using zip_begin_end_share_identity [OF live, of "zip_Iterator2 2 2 0"] live cur
    by auto
qed

text \<open>
  C10, as amended. Cursors obtained from two \<open>zip\<close> objects that are alive at the same
  time, hence at different addresses of one store, always compare unequal, whatever their
  positions, also when the two objects were constructed over the same containers.
\<close>

theorem zip_cursors_of_distinct_objects_differ:
  "z1 \<noteq> z2 \<Longrightarrow> zip_cursor s z1 x \<Longrightarrow> zip_cursor s z2 y \<Longrightarrow>
     zip_Iterator_neq x y \<and> zip_Iterator_neq y x"
proof -
  assume "z1 \<noteq> z2" and "zip_cursor s z1 x" and "zip_cursor s z2 y"
  then have "zip_Iterator_arrays x \<noteq> zip_Iterator_arrays y"
    using zip_cursor_arrays [of s z1 x] zip_cursor_arrays [of s z2 y] by simp
  then show ?thesis
    by (auto simp: zip_Iterator_neq_def)
qed

theorem zip_cursors_of_distinct_objects_differ_witness:
  "(2 :: addr) \<noteq> 3
   \<and> zip_ctor 2 [0, 1] caller_store = Inr one_zip_store
   \<and> zip_ctor 3 [0, 1] one_zip_store = Inr two_zips_store
   \<and> zip_cursor two_zips_store 2 (zip_Iterator2 2 2 0)
   \<and> zip_cursor two_zips_store 3 (zip_Iterator2 2 3 0)
   \<and> zip_Iterator_neq (zip_Iterator2 2 2 0) (zip_Iterator2 2 3 0)
   \<and> zip_Iterator_neq (zip_Iterator2 2 3 0) (zip_Iterator2 2 2 0)"
proof -
  have h0: "(2 :: addr) \<noteq> 3" by simp
  have "zip_begin 2 two_zips_store = Inr (zip_Iterator2 2 2 0, two_zips_store)"
    by (simp add: zip_begin_def two_zips_store_def numeral_2_eq_2)
  then have h1: "zip_cursor two_zips_store 2 (zip_Iterator2 2 2 0)"
    by (rule zip_cursor.from_begin)
  have "zip_begin 3 two_zips_store = Inr (zip_Iterator2 2 3 0, two_zips_store)"
    by (simp add: zip_begin_def two_zips_store_def numeral_2_eq_2)
  then have h2: "zip_cursor two_zips_store 3 (zip_Iterator2 2 3 0)"
    by (rule zip_cursor.from_begin)
  show ?thesis
    using zip_cursors_of_distinct_objects_differ [OF h0 h1 h2] h1 h2
      one_zip_store_ctor two_zips_store_ctor
    by simp
qed

text \<open>
  C10, as stated, fails: a \<open>zip\<close> object over the containers 0 and 1 is constructed at
  the address 2, and after it a second one, over the containers 4 and 1, in the same
  storage. The cursor that \<open>begin()\<close> returned for the first and the one it returns for
  the second refer to the same address and have the same position: \<open>operator!=\<close> is
  false on them.
\<close>

theorem zip_cursors_of_successive_objects_equal:
  "zip_ctor 2 [0, 1] three_containers_store
     = Inr (three_containers_store\<lparr>zips := [2 \<mapsto> \<lparr>zip_arrays = [0, 1], zip_max = 2\<rparr>]\<rparr>)
   \<and> zip_ctor 2 [4, 1]
         (three_containers_store\<lparr>zips := [2 \<mapsto> \<lparr>zip_arrays = [0, 1], zip_max = 2\<rparr>]\<rparr>)
       = Inr (three_containers_store\<lparr>zips := [2 \<mapsto> \<lparr>zip_arrays = [4, 1], zip_max = 1\<rparr>]\<rparr>)
   \<and> zip_cursor
         (three_containers_store\<lparr>zips := [2 \<mapsto> \<lparr>zip_arrays = [0, 1], zip_max = 2\<rparr>]\<rparr>)
         2 (zip_Iterator2 2 2 0)
   \<and> zip_cursor
         (three_containers_store\<lparr>zips := [2 \<mapsto> \<lparr>zip_arrays = [4, 1], zip_max = 1\<rparr>]\<rparr>)
         2 (zip_Iterator2 2 2 0)
   \<and> \<not> zip_Iterator_neq (zip_Iterator2 2 2 0) (zip_Iterator2 2 2 0)"
proof -
  let ?s1 = "three_containers_store\<lparr>zips := [2 \<mapsto> \<lparr>zip_arrays = [0, 1], zip_max = 2\<rparr>]\<rparr>"
  let ?s2 = "three_containers_store\<lparr>zips := [2 \<mapsto> \<lparr>zip_arrays = [4, 1], zip_max = 1\<rparr>]\<rparr>"
  have c1: "zip_ctor 2 [0, 1] three_containers_store = Inr ?s1"
    by (simp add: zip_ctor_def three_containers_store_def container_size_def)
  have c2: "zip_ctor 2 [4, 1] ?s1 = Inr ?s2"
    by (simp add: zip_ctor_def three_containers_store_def container_size_def)
  have "zip_begin 2 ?s1 = Inr (zip_Iterator2 2 2 0, ?s1)"
    by (simp add: zip_begin_def numeral_2_eq_2)
  then have k1: "zip_cursor ?s1 2 (zip_Iterator2 2 2 0)"
    by (rule zip_cursor.from_begin)
  have "zip_begin 2 ?s2 = Inr (zip_Iterator2 2 2 0, ?s2)"
    by (simp add: zip_begin_def numeral_2_eq_2)
  then have k2: "zip_cursor ?s2 2 (zip_Iterator2 2 2 0)"
    by (rule zip_cursor.from_begin)
  have "\<not> zip_Iterator_neq (zip_Iterator2 2 2 0) (zip_Iterator2 2 2 0)"
    by (simp add: zip_Iterator_neq_def)
  then show ?thesis
    using c1 c2 k1 k2 by simp
qed

end
